theory Spec2Isabelle
  imports Main
begin

section \<open>Values exchanged with the backend\<close>

text \<open>
  The hook \<^verbatim>\<open>useCallAccess\<close> reads response bodies through \<^verbatim>\<open>response.json()\<close>
  and hands fields of the result to the reducer unchecked, so the payloads are arbitrary
  JSON values, plus \<^verbatim>\<open>undefined\<close> for a field that is not there. Numbers only matter
  through their truthiness; integers stand for them.
\<close>

datatype jsval =
    JUndefined
  | JNull
  | JBool bool
  | JNum int
  | JStr string
  | JObj "(string \<times> jsval) list"
  | JArr "jsval list"

datatype js_error = NetworkError | SyntaxError | TypeError

text \<open>JavaScript's truthiness, as used by \<^verbatim>\<open>data.error || "Failed to send request"\<close>.\<close>

fun truthy :: "jsval \<Rightarrow> bool" where
  "truthy JUndefined = False"
| "truthy JNull = False"
| "truthy (JBool b) = b"
| "truthy (JNum n) = (n \<noteq> 0)"
| "truthy (JStr s) = (s \<noteq> [])"
| "truthy (JObj kvs) = True"
| "truthy (JArr xs) = True"

text \<open>
  Property access \<^verbatim>\<open>data.k\<close> for the four names the hook reads (\<^verbatim>\<open>creator\<close>,
  \<^verbatim>\<open>hasAccess\<close>, \<^verbatim>\<open>isCreator\<close>, \<^verbatim>\<open>error\<close>), none of which lives on a prototype:
  a TypeError on \<^verbatim>\<open>null\<close>, the field of an object (the last binding wins, as in
  \<^verbatim>\<open>JSON.parse\<close>), \<^verbatim>\<open>undefined\<close> anywhere else.
\<close>

fun get_prop :: "jsval \<Rightarrow> string \<Rightarrow> js_error + jsval" where
  "get_prop JUndefined k = Inl TypeError"
| "get_prop JNull k = Inl TypeError"
| "get_prop (JObj kvs) k = (case map_of (rev kvs) k of Some v \<Rightarrow> Inr v | None \<Rightarrow> Inr JUndefined)"
| "get_prop v k = Inr JUndefined"

section \<open>Requests, responses, actions and effects\<close>

datatype http_method = GET | POST

datatype endpoint = Creator | CheckAccess | RequestJoin

text \<open>
  \<open>Request m cid e\<close> is the call of \<^verbatim>\<open>fetch\<close> on
  \<^verbatim>\<open>${NEXT_PUBLIC_BACKEND_URL}/api/calls/${cid}/creator\<close> (or \<^verbatim>\<open>check-access\<close>,
  \<^verbatim>\<open>request-join\<close>) with method \<open>m\<close>; every request of the hook is sent with
  \<^verbatim>\<open>credentials: "include"\<close>.
\<close>

datatype request = Request (meth: http_method) (call: string) (target: endpoint)

text \<open>
  What the awaited \<^verbatim>\<open>fetch\<close> gives back: the promise rejects, or it resolves to a
  response with a status; \<open>body\<close> is what \<^verbatim>\<open>await response.json()\<close> yields, \<open>None\<close>
  when that promise rejects (the body is not JSON).
\<close>

datatype fetch_result = Rejected | Response (status: nat) (body: "jsval option")

text \<open>\<^verbatim>\<open>response.ok\<close>: the status is in the range 200-299.\<close>

definition ok :: "nat \<Rightarrow> bool" where
  "ok code = (200 \<le> code \<and> code \<le> 299)"

datatype action =
    SET_CREATOR_INFO jsval
  | SET_HAS_ACCESS jsval
  | SET_CREATOR jsval
  | SET_REQUESTING_ACCESS jsval

text \<open>
  What the hook does to the world: \<^verbatim>\<open>dispatch\<close>, \<^verbatim>\<open>toast.info/success/error\<close>,
  \<^verbatim>\<open>console.error\<close>. \<open>Fetch\<close> records that a request went out; it appears in traces
  only, at the place of the \<^verbatim>\<open>await fetch(...)\<close>.
\<close>

datatype effect =
    Dispatch action
  | Fetch request
  | ToastInfo string
  | ToastSuccess string
  | ToastError jsval
  | ConsoleError string js_error

section \<open>Asynchronous functions\<close>

text \<open>
  An \<^verbatim>\<open>async\<close> function is a resumption: it returns, throws, performs an effect and
  goes on, or awaits a \<^verbatim>\<open>fetch\<close> and goes on with its result. Everything up to an
  \<open>Await\<close> runs synchronously in the caller's turn of the event loop; the continuation
  runs in a later turn.
\<close>

datatype proc =
    Return
  | Throw js_error
  | Do effect proc
  | Await request "fetch_result \<Rightarrow> proc"

text \<open>\<^verbatim>\<open>try { p } catch (error) { h error }\<close>\<close>

primrec try_catch :: "proc \<Rightarrow> (js_error \<Rightarrow> proc) \<Rightarrow> proc" where
  "try_catch Return h = Return"
| "try_catch (Throw e) h = h e"
| "try_catch (Do x p) h = Do x (try_catch p h)"
| "try_catch (Await q k) h = Await q (\<lambda>r. try_catch (k r) h)"

text \<open>\<^verbatim>\<open>p; q\<close>\<close>

primrec and_then :: "proc \<Rightarrow> proc \<Rightarrow> proc" where
  "and_then Return q = q"
| "and_then (Throw e) q = Throw e"
| "and_then (Do x p) q = Do x (and_then p q)"
| "and_then (Await r k) q = Await r (\<lambda>res. and_then (k res) q)"

text \<open>\<^verbatim>\<open>try { p } finally { f }\<close>: \<open>f\<close> runs on both exits, and a throw of \<open>p\<close> goes on after it.\<close>

primrec try_finally :: "proc \<Rightarrow> proc \<Rightarrow> proc" where
  "try_finally Return f = f"
| "try_finally (Throw e) f = and_then f (Throw e)"
| "try_finally (Do x p) f = Do x (try_finally p f)"
| "try_finally (Await r k) f = Await r (\<lambda>res. try_finally (k res) f)"

text \<open>
  The trace of a whole run, the awaited request answered by \<open>r\<close> (each function of the
  hook awaits one \<^verbatim>\<open>fetch\<close> at most).
\<close>

primrec run :: "proc \<Rightarrow> fetch_result \<Rightarrow> effect list" where
  "run Return r = []"
| "run (Throw e) r = []"
| "run (Do x p) r = x # run p r"
| "run (Await q k) r = Fetch q # run (k r) r"

text \<open>Whether a run ends in an exception nobody caught.\<close>

primrec throws :: "proc \<Rightarrow> fetch_result \<Rightarrow> bool" where
  "throws Return r = False"
| "throws (Throw e) r = True"
| "throws (Do x p) r = throws p r"
| "throws (Await q k) r = throws (k r) r"

text \<open>
  The first turn of a call: what it does synchronously, up to and with the request of
  its first \<^verbatim>\<open>await\<close>.
\<close>

primrec turn :: "proc \<Rightarrow> effect list" where
  "turn Return = []"
| "turn (Throw e) = []"
| "turn (Do x p) = x # turn p"
| "turn (Await q k) = [Fetch q]"

text \<open>The request a call is left waiting for after its first turn, with its continuation.\<close>

primrec cont :: "proc \<Rightarrow> (request \<times> (fetch_result \<Rightarrow> proc)) list" where
  "cont Return = []"
| "cont (Throw e) = []"
| "cont (Do x p) = cont p"
| "cont (Await q k) = [(q, k)]"

text \<open>A piece of code that awaits nothing and performs only effects that satisfy \<open>P\<close>.\<close>

primrec only :: "(effect \<Rightarrow> bool) \<Rightarrow> proc \<Rightarrow> bool" where
  "only P Return = True"
| "only P (Throw e) = True"
| "only P (Do x p) = (P x \<and> only P p)"
| "only P (Await q k) = False"

text \<open>The requests a run sends.\<close>

fun requests :: "effect list \<Rightarrow> request list" where
  "requests [] = []"
| "requests (Fetch q # xs) = q # requests xs"
| "requests (x # xs) = requests xs"

section \<open>The session state\<close>

text \<open>
  Modelled from the spec: the state container and the reducer of
  \<^verbatim>\<open>@/contexts/call-context\<close> (\<^verbatim>\<open>useCallContext\<close>), which the hook imports and which is
  not among the sources. The spec's CallSession has the fields below.
\<close>

record call_state =
  callId :: "string option"
  joined :: bool
  hasAccess :: jsval
  isCreator :: jsval
  isRequestingAccess :: jsval
  creatorInfo :: jsval

text \<open>
  Modelled from the spec: the reducer behind \<^verbatim>\<open>dispatch\<close>, for the four action types
  the hook sends. The spec describes each as setting one field: \<^verbatim>\<open>creatorInfo\<close>,
  \<^verbatim>\<open>hasAccess\<close>, \<^verbatim>\<open>isCreator\<close>, \<^verbatim>\<open>isRequestingAccess\<close>.
\<close>

fun reducer :: "call_state \<Rightarrow> action \<Rightarrow> call_state" where
  "reducer s (SET_CREATOR_INFO v) = s\<lparr>creatorInfo := v\<rparr>"
| "reducer s (SET_HAS_ACCESS v) = s\<lparr>hasAccess := v\<rparr>"
| "reducer s (SET_CREATOR v) = s\<lparr>isCreator := v\<rparr>"
| "reducer s (SET_REQUESTING_ACCESS v) = s\<lparr>isRequestingAccess := v\<rparr>"

text \<open>The state after the dispatches of a trace, in order.\<close>

fun after :: "call_state \<Rightarrow> effect list \<Rightarrow> call_state" where
  "after s [] = s"
| "after s (Dispatch a # xs) = after (reducer s a) xs"
| "after s (x # xs) = after s xs"

text \<open>
  The signed-in user of the session, as far as the hook looks at it: \<^verbatim>\<open>user?.id\<close> is
  \<^verbatim>\<open>undefined\<close> when there is no user or the user has no id.
\<close>

record user =
  uid :: "string option"

definition user_id :: "user option \<Rightarrow> string option" where
  "user_id u = (case u of None \<Rightarrow> None | Some x \<Rightarrow> uid x)"

text \<open>\<^verbatim>\<open>!user?.id || user.id === "guest"\<close>\<close>

definition guest :: "user option \<Rightarrow> bool" where
  "guest u = (case user_id u of None \<Rightarrow> True | Some i \<Rightarrow> i = [] \<or> i = ''guest'')"

text \<open>\<^verbatim>\<open>!state.callId\<close>: no call identifier, or the empty string.\<close>

definition no_call :: "call_state \<Rightarrow> bool" where
  "no_call st = (case callId st of None \<Rightarrow> True | Some cid \<Rightarrow> cid = [])"

section \<open>The hook useCallAccess\<close>

definition fetchCreatorInfo :: "call_state \<Rightarrow> proc" where
  "fetchCreatorInfo st =
    (case callId st of
       None \<Rightarrow> Return
     | Some cid \<Rightarrow>
        if cid = [] then Return
        else
          try_catch
            (Await (Request GET cid Creator) (\<lambda>response.
               case response of
                 Rejected \<Rightarrow> Throw NetworkError
               | Response code parsed \<Rightarrow>
                   if ok code then
                     (case parsed of
                        None \<Rightarrow> Throw SyntaxError
                      | Some data \<Rightarrow>
                          (case get_prop data ''creator'' of
                             Inl e \<Rightarrow> Throw e
                           | Inr c \<Rightarrow> Do (Dispatch (SET_CREATOR_INFO c)) Return))
                   else if code = 404 then
                     Do (Dispatch (SET_CREATOR_INFO JNull))
                       (Do (Dispatch (SET_HAS_ACCESS (JBool True)))
                         (Do (Dispatch (SET_CREATOR (JBool False))) Return))
                   else Return))
            (\<lambda>error. Do (ConsoleError ''Error fetching creator info:'' error) Return))"

text \<open>
  \<^verbatim>\<open>checkAccess\<close> is a closure of the polling effect; \<open>cid\<close> is the \<^verbatim>\<open>state.callId\<close>
  it has captured, which the effect's guard has found non-empty.
\<close>

definition checkAccess :: "string \<Rightarrow> proc" where
  "checkAccess cid =
    try_catch
      (Await (Request GET cid CheckAccess) (\<lambda>response.
         case response of
           Rejected \<Rightarrow> Throw NetworkError
         | Response code parsed \<Rightarrow>
             if ok code then
               (case parsed of
                  None \<Rightarrow> Throw SyntaxError
                | Some data \<Rightarrow>
                    (case get_prop data ''hasAccess'' of
                       Inl e \<Rightarrow> Throw e
                     | Inr h \<Rightarrow>
                         Do (Dispatch (SET_HAS_ACCESS h))
                           (case get_prop data ''isCreator'' of
                              Inl e \<Rightarrow> Throw e
                            | Inr c \<Rightarrow> Do (Dispatch (SET_CREATOR c)) Return)))
             else if code = 404 then
               Do (Dispatch (SET_HAS_ACCESS (JBool True)))
                 (Do (Dispatch (SET_CREATOR (JBool False))) Return)
             else Return))
      (\<lambda>error. Do (ConsoleError ''Error checking call access:'' error) Return)"

text \<open>
  The body of a \<^verbatim>\<open>useEffect\<close> is synchronous: it performs effects, calls async
  functions without awaiting them, and may start an interval. \<open>cleanup\<close> says whether
  it returns the function that clears that interval.
\<close>

datatype cmd = Emit effect | Call proc | SetInterval proc nat

record effect_run =
  cmds :: "cmd list"
  cleanup :: bool

text \<open>The first effect, with dependencies \<^verbatim>\<open>[state.callId, dispatch]\<close>.\<close>

definition creatorEffect :: "call_state \<Rightarrow> effect_run" where
  "creatorEffect st = \<lparr>cmds = [Call (fetchCreatorInfo st)], cleanup = False\<rparr>"

text \<open>
  The second effect, with dependencies \<^verbatim>\<open>[state.callId, user?.id, state.joined, dispatch]\<close>:
  the guard \<^verbatim>\<open>if (state.joined || !state.callId) return\<close>, the shortcut for guests, then
  \<^verbatim>\<open>checkAccess(); const interval = setInterval(checkAccess, 3000);
  return () => clearInterval(interval)\<close>. Past the guard there is a call identifier, so the
  case \<open>None\<close> below is never taken.
\<close>

definition accessEffect :: "call_state \<Rightarrow> user option \<Rightarrow> effect_run" where
  "accessEffect st u =
    (if joined st \<or> no_call st then \<lparr>cmds = [], cleanup = False\<rparr>
     else if guest u then
       \<lparr>cmds = [Emit (Dispatch (SET_HAS_ACCESS (JBool True))),
                Emit (Dispatch (SET_CREATOR (JBool False)))],
        cleanup = False\<rparr>
     else
       (case callId st of
          None \<Rightarrow> \<lparr>cmds = [], cleanup = False\<rparr>
        | Some cid \<Rightarrow>
            \<lparr>cmds = [Call (checkAccess cid), SetInterval (checkAccess cid) 3000],
             cleanup = True\<rparr>))"

text \<open>
  The callback \<^verbatim>\<open>handleRequestAccess\<close>, a closure over \<^verbatim>\<open>state.callId\<close> and \<^verbatim>\<open>user?.id\<close>
  of the current render. The first dispatch is before the \<^verbatim>\<open>try\<close>, the second in its
  \<^verbatim>\<open>finally\<close>.
\<close>

definition handleRequestAccess :: "call_state \<Rightarrow> user option \<Rightarrow> proc" where
  "handleRequestAccess st u =
    (case callId st of
       None \<Rightarrow> Return
     | Some cid \<Rightarrow>
        if cid = [] then Return
        else if guest u then Do (ToastInfo ''Joining as guest. No approval required.'') Return
        else
          Do (Dispatch (SET_REQUESTING_ACCESS (JBool True)))
            (try_finally
              (try_catch
                (Await (Request POST cid RequestJoin) (\<lambda>response.
                   case response of
                     Rejected \<Rightarrow> Throw NetworkError
                   | Response code parsed \<Rightarrow>
                       if ok code then
                         Do (ToastSuccess ''Request sent! Please wait for the host to approve.'') Return
                       else
                         (case parsed of
                            None \<Rightarrow> Throw SyntaxError
                          | Some data \<Rightarrow>
                              (case get_prop data ''error'' of
                                 Inl e \<Rightarrow> Throw e
                               | Inr m \<Rightarrow>
                                   Do (ToastError (if truthy m then m else JStr ''Failed to send request''))
                                     Return))))
                (\<lambda>error.
                   Do (ConsoleError ''Error requesting access:'' error)
                     (Do (ToastError (JStr ''Failed to send request'')) Return)))
              (Do (Dispatch (SET_REQUESTING_ACCESS (JBool False))) Return)))"

section \<open>The hook in the event loop\<close>

text \<open>
  The hook runs inside React and the browser, single-threaded: every piece of its code
  runs to its end or to its next \<^verbatim>\<open>await\<close> before anything else happens. This section
  is that environment, as far as the hook uses it. React keeps the session state, the
  user and the cleanup that the polling effect returned last (\<open>held\<close>, the handle it
  clears); the browser keeps the table of running intervals (handle, callback, period
  in ms; \<open>fresh\<close> is the next handle) and the requests in flight with the continuations
  waiting for them. \<open>trace\<close> records every effect in the order it happened. Time is not
  measured: an interval of the table may fire at any moment, any number of times.
\<close>

record system =
  session :: call_state
  usr :: "user option"
  in_flight :: "(request \<times> (fetch_result \<Rightarrow> proc)) list"
  timers :: "(nat \<times> proc \<times> nat) list"
  fresh :: nat
  started :: "nat option"
  held :: "nat option"
  trace :: "effect list"

text \<open>An effect happens: a dispatch goes through the reducer, everything is recorded.\<close>

definition perform :: "effect \<Rightarrow> system \<Rightarrow> system" where
  "perform x s = s\<lparr>session := after (session s) [x], trace := trace s @ [x]\<rparr>"

text \<open>
  One turn of an async function: it runs up to its next \<^verbatim>\<open>await\<close>, where the request
  goes out and the continuation waits for the answer.
\<close>

primrec exec :: "proc \<Rightarrow> system \<Rightarrow> system" where
  "exec Return s = s"
| "exec (Throw e) s = s"
| "exec (Do x p) s = exec p (perform x s)"
| "exec (Await q k) s = s\<lparr>in_flight := in_flight s @ [(q, k)], trace := trace s @ [Fetch q]\<rparr>"

text \<open>
  \<^verbatim>\<open>setInterval\<close> enters the callback in the browser's table under a new handle, which
  the effect body keeps in its constant \<^verbatim>\<open>interval\<close> (here \<open>started\<close>).
\<close>

fun run_cmd :: "cmd \<Rightarrow> system \<Rightarrow> system" where
  "run_cmd (Emit x) s = perform x s"
| "run_cmd (Call p) s = exec p s"
| "run_cmd (SetInterval p ms) s =
     s\<lparr>timers := timers s @ [(fresh s, p, ms)], started := Some (fresh s), fresh := Suc (fresh s)\<rparr>"

text \<open>React runs the body of the first effect; it returns no cleanup.\<close>

definition run_creator_effect :: "system \<Rightarrow> system" where
  "run_creator_effect s = fold run_cmd (cmds (creatorEffect (session s))) s"

text \<open>
  React runs the body of the polling effect and keeps the cleanup it returns:
  \<^verbatim>\<open>() => clearInterval(interval)\<close>, or nothing.
\<close>

definition run_access_effect :: "system \<Rightarrow> system" where
  "run_access_effect s =
     (let e = accessEffect (session s) (usr s);
          s' = fold run_cmd (cmds e) (s\<lparr>started := None\<rparr>)
      in s'\<lparr>held := (if cleanup e then started s' else None)\<rparr>)"

text \<open>The cleanup of the polling effect, if there is one: \<^verbatim>\<open>clearInterval(interval)\<close>.\<close>

definition cleanup_access :: "system \<Rightarrow> system" where
  "cleanup_access s =
     (case held s of
        None \<Rightarrow> s
      | Some h \<Rightarrow> s\<lparr>timers := filter (\<lambda>t. fst t \<noteq> h) (timers s), held := None\<rparr>)"

text \<open>
  A render after the context has changed from \<open>old\<close> to \<open>new\<close>: React compares each
  effect's dependency array with that of the previous render (\<^verbatim>\<open>dispatch\<close> never
  changes), runs the cleanups of the effects whose dependencies changed, then their
  bodies, in the order of the hook. The dispatches of the hook itself change none of the
  dependencies, so the renders they cause run no effect.
\<close>

definition rerender :: "system \<Rightarrow> system \<Rightarrow> system" where
  "rerender old new =
     (let creator_deps = (callId (session new) \<noteq> callId (session old));
          access_deps = (creator_deps \<or> user_id (usr new) \<noteq> user_id (usr old)
                          \<or> joined (session new) \<noteq> joined (session old));
          s1 = (if access_deps then cleanup_access new else new);
          s2 = (if creator_deps then run_creator_effect s1 else s1)
      in if access_deps then run_access_effect s2 else s2)"

text \<open>
  What can happen to a mounted hook: the interval with handle \<open>h\<close> fires (nothing
  happens if it has been cleared), the \<open>i\<close>-th request in flight is answered with \<open>r\<close>
  and its continuation runs, the user asks for access, or the rest of the application
  changes \<^verbatim>\<open>joined\<close>, the call identifier or the user.
\<close>

datatype event =
    Tick nat
  | Settle nat fetch_result
  | ClickRequestAccess
  | SetJoined bool
  | SetCallId "string option"
  | SetUser "user option"

fun step :: "event \<Rightarrow> system \<Rightarrow> system" where
  "step (Tick h) s =
     (case find (\<lambda>t. fst t = h) (timers s) of
        None \<Rightarrow> s
      | Some (_, p, _) \<Rightarrow> exec p s)"
| "step (Settle i r) s =
     (if i < length (in_flight s) then
        exec (snd (in_flight s ! i) r)
          (s\<lparr>in_flight := take i (in_flight s) @ drop (Suc i) (in_flight s)\<rparr>)
      else s)"
| "step ClickRequestAccess s = exec (handleRequestAccess (session s) (usr s)) s"
| "step (SetJoined b) s = rerender s (s\<lparr>session := (session s)\<lparr>joined := b\<rparr>\<rparr>)"
| "step (SetCallId c) s = rerender s (s\<lparr>session := (session s)\<lparr>callId := c\<rparr>\<rparr>)"
| "step (SetUser u) s = rerender s (s\<lparr>usr := u\<rparr>)"

text \<open>The first render: both effects run, in the order of the hook.\<close>

definition mount :: "call_state \<Rightarrow> user option \<Rightarrow> system" where
  "mount st u =
     run_access_effect (run_creator_effect
       \<lparr>session = st, usr = u, in_flight = [], timers = [], fresh = 0,
        started = None, held = None, trace = []\<rparr>)"

text \<open>The requests that one event sends.\<close>

definition sent :: "event \<Rightarrow> system \<Rightarrow> request list" where
  "sent e s = requests (drop (length (trace s)) (trace (step e s)))"

text \<open>The polling effect passes its guards: not joined, a call identifier, an identified user.\<close>

definition polling :: "system \<Rightarrow> bool" where
  "polling s = (\<not> joined (session s) \<and> \<not> no_call (session s) \<and> \<not> guest (usr s))"

text \<open>The dependencies of the polling effect.\<close>

definition deps :: "system \<Rightarrow> string option \<times> string option \<times> bool" where
  "deps s = (callId (session s), user_id (usr s), joined (session s))"

text \<open>
  The intervals that should be running: the poll of the current call every 3000 ms
  while the polling effect passes its guards, none otherwise.
\<close>

definition expected_timers :: "system \<Rightarrow> (proc \<times> nat) list" where
  "expected_timers s =
     (case callId (session s) of
        None \<Rightarrow> []
      | Some cid \<Rightarrow> if polling s then [(checkAccess cid, 3000)] else [])"

text \<open>
  The invariant of the interval table: it holds what it should, React holds the cleanup
  for exactly the running interval, and handles are never reused.
\<close>

definition inv_timers :: "system \<Rightarrow> bool" where
  "inv_timers s =
     (map snd (timers s) = expected_timers s
      \<and> map fst (timers s) = (case held s of None \<Rightarrow> [] | Some h \<Rightarrow> [h])
      \<and> list_all (\<lambda>t. fst t < fresh s) (timers s))"

text \<open>The effects a poll may perform: it dispatches nothing but its two actions.\<close>

fun poll_effect :: "effect \<Rightarrow> bool" where
  "poll_effect (Dispatch (SET_HAS_ACCESS v)) = True"
| "poll_effect (Dispatch (SET_CREATOR v)) = True"
| "poll_effect (Dispatch a) = False"
| "poll_effect x = True"

text \<open>Sessions and users for the scenarios of the specification.\<close>

definition abc123 :: call_state where
  "abc123 =
     \<lparr>callId = Some ''abc123'', joined = False, hasAccess = JBool False, isCreator = JBool False,
      isRequestingAccess = JBool False, creatorInfo = JUndefined\<rparr>"

definition u1 :: "user option" where
  "u1 = Some \<lparr>uid = Some ''u1''\<rparr>"

definition visitor :: "user option" where
  "visitor = Some \<lparr>uid = Some ''guest''\<rparr>"

section \<open>Predicates on runs of the hook\<close>

text \<open>A request is a poll when it goes to the check-access endpoint.\<close>

definition polls :: "request \<Rightarrow> bool" where
  "polls q = (target q = CheckAccess)"

text \<open>
  The polls that a run of the polling effect, or a tick of its interval, should send:
  one for the current call while the effect passes its guards, none otherwise.
\<close>

definition expected_polls :: "system \<Rightarrow> request list" where
  "expected_polls s =
     (case callId (session s) of
        None \<Rightarrow> []
      | Some cid \<Rightarrow> if polling s then [Request GET cid CheckAccess] else [])"

text \<open>The event is a tick of an interval that is running.\<close>

fun fires :: "event \<Rightarrow> system \<Rightarrow> bool" where
  "fires (Tick h) s = (h \<in> set (map fst (timers s)))"
| "fires e s = False"

text \<open>Continuations that send no request of their own.\<close>

fun silent :: "effect \<Rightarrow> bool" where
  "silent (Fetch q) = False"
| "silent x = True"

definition quiet_cont :: "(request \<times> (fetch_result \<Rightarrow> proc)) list \<Rightarrow> bool" where
  "quiet_cont es = (\<forall>e \<in> set es. \<forall>r. only silent (snd e r))"

text \<open>The invariant of a mounted hook.\<close>

definition sound :: "system \<Rightarrow> bool" where
  "sound s = (inv_timers s \<and> quiet_cont (in_flight s))"

text \<open>
  The open room: the state that the hook gives a call the backend does not know, and the
  effects that cannot lead out of it.
\<close>

definition settled :: "call_state \<Rightarrow> bool" where
  "settled st = (hasAccess st = JBool True \<and> isCreator st = JBool False \<and> creatorInfo st = JNull)"









text \<open>The event leaves the user a guest.\<close>

fun stays_guest :: "event \<Rightarrow> bool" where
  "stays_guest (SetUser u) = guest u"
| "stays_guest e = True"

section \<open>The session state under dispatches\<close>

lemma callId_reducer [simp]: "callId (reducer s a) = callId s"
  by (cases a) simp_all

lemma joined_reducer [simp]: "joined (reducer s a) = joined s"
  by (cases a) simp_all

lemma callId_after [simp]: "callId (after s xs) = callId s"
  by (induction s xs rule: after.induct) simp_all

lemma joined_after [simp]: "joined (after s xs) = joined s"
  by (induction s xs rule: after.induct) simp_all

lemma no_call_after [simp]: "no_call (after s xs) = no_call s"
  by (simp add: no_call_def)

lemma after_Cons: "after s (x # xs) = after (after s [x]) xs"
  by (cases x) simp_all

lemma after_append: "after s (xs @ ys) = after (after s xs) ys"
  by (induction s xs rule: after.induct) simp_all

lemma requests_append: "requests (xs @ ys) = requests xs @ requests ys"
  by (induction xs rule: requests.induct) simp_all

lemma guest_u1 [simp]: "\<not> guest u1"
  by (simp add: guest_def user_id_def u1_def)

lemma guest_visitor [simp]: "guest visitor"
  by (simp add: guest_def user_id_def visitor_def)

lemma guest_None [simp]: "guest None"
  by (simp add: guest_def user_id_def)

section \<open>The one-shot creator fetch\<close>

text \<open>
  C5, as the code has it. With a call identifier, \<^verbatim>\<open>fetchCreatorInfo\<close> sends one
  request to the creator endpoint, whatever the answer (no retry), and never throws.
  On a 2xx answer whose body has a readable \<^verbatim>\<open>creator\<close> it sets \<^verbatim>\<open>creatorInfo\<close> to
  it. On a 404 it sets \<^verbatim>\<open>creatorInfo = null\<close>, \<^verbatim>\<open>hasAccess = true\<close>,
  \<^verbatim>\<open>isCreator = false\<close>. When the request is rejected it logs the failure and leaves the
  state as it is. On any other answer (not 2xx, not 404) it leaves the state as it is
  and logs nothing.
\<close>

theorem fetchCreatorInfo_outcomes:
  assumes "callId st = Some cid" and "cid \<noteq> []"
  shows "(ok code \<and> get_prop data ''creator'' = Inr c \<longrightarrow>
            run (fetchCreatorInfo st) (Response code (Some data)) =
              [Fetch (Request GET cid Creator), Dispatch (SET_CREATOR_INFO c)]
            \<and> after st (run (fetchCreatorInfo st) (Response code (Some data))) =
                st\<lparr>creatorInfo := c\<rparr>)
       \<and> run (fetchCreatorInfo st) (Response 404 b) =
              [Fetch (Request GET cid Creator), Dispatch (SET_CREATOR_INFO JNull),
               Dispatch (SET_HAS_ACCESS (JBool True)), Dispatch (SET_CREATOR (JBool False))]
       \<and> after st (run (fetchCreatorInfo st) (Response 404 b)) =
              st\<lparr>creatorInfo := JNull, hasAccess := JBool True, isCreator := JBool False\<rparr>
       \<and> run (fetchCreatorInfo st) Rejected =
              [Fetch (Request GET cid Creator),
               ConsoleError ''Error fetching creator info:'' NetworkError]
       \<and> after st (run (fetchCreatorInfo st) Rejected) = st
       \<and> (\<not> ok code \<and> code \<noteq> 404 \<longrightarrow>
            run (fetchCreatorInfo st) (Response code b) = [Fetch (Request GET cid Creator)]
            \<and> after st (run (fetchCreatorInfo st) (Response code b)) = st)
       \<and> requests (run (fetchCreatorInfo st) r) = [Request GET cid Creator]
       \<and> \<not> throws (fetchCreatorInfo st) r"
  using assms
  by (simp add: fetchCreatorInfo_def ok_def split: fetch_result.split option.split sum.split)

theorem fetchCreatorInfo_outcomes_witness:
  "run (fetchCreatorInfo abc123)
       (Response 200 (Some (JObj [(''creator'', JObj [(''id'', JStr ''u1'')])]))) =
     [Fetch (Request GET ''abc123'' Creator),
      Dispatch (SET_CREATOR_INFO (JObj [(''id'', JStr ''u1'')]))]
   \<and> creatorInfo (after abc123 (run (fetchCreatorInfo abc123) (Response 404 None))) = JNull
   \<and> after abc123 (run (fetchCreatorInfo abc123) Rejected) = abc123
   \<and> run (fetchCreatorInfo abc123) (Response 503 None) = [Fetch (Request GET ''abc123'' Creator)]"
  using fetchCreatorInfo_outcomes [of abc123 "''abc123''" 200
          "JObj [(''creator'', JObj [(''id'', JStr ''u1'')])]" "JObj [(''id'', JStr ''u1'')]"
          None Rejected]
        fetchCreatorInfo_outcomes [of abc123 "''abc123''" 503 JNull JNull None Rejected]
  by (simp add: abc123_def ok_def)

text \<open>
  C5 as the specification words it has every failure logged. An answer 500 is such a
  failure, and the run holds the request and nothing else: nothing is logged.
\<close>

theorem fetchCreatorInfo_500_not_logged:
  "run (fetchCreatorInfo abc123) (Response 500 None) = [Fetch (Request GET ''abc123'' Creator)]"
  by (simp add: fetchCreatorInfo_def abc123_def ok_def)

section \<open>One poll of the access status\<close>

lemma perform_fields [simp]:
  "timers (perform x s) = timers s"
  "held (perform x s) = held s"
  "fresh (perform x s) = fresh s"
  "started (perform x s) = started s"
  "usr (perform x s) = usr s"
  "in_flight (perform x s) = in_flight s"
  "trace (perform x s) = trace s @ [x]"
  "session (perform x s) = after (session s) [x]"
  by (simp_all add: perform_def)

lemma exec_fields [simp]:
  "timers (exec p s) = timers s"
  "held (exec p s) = held s"
  "fresh (exec p s) = fresh s"
  "started (exec p s) = started s"
  "usr (exec p s) = usr s"
  by (induction p arbitrary: s) simp_all

lemma trace_exec: "trace (exec p s) = trace s @ turn p"
  by (induction p arbitrary: s) simp_all

lemma in_flight_exec: "in_flight (exec p s) = in_flight s @ cont p"
  by (induction p arbitrary: s) simp_all

lemma session_exec: "session (exec p s) = after (session s) (turn p)"
  by (induction p arbitrary: s) (simp_all add: after_Cons [symmetric])

text \<open>
  C6, as the code has it. On a 2xx answer whose body is readable, \<^verbatim>\<open>checkAccess\<close>
  sets \<^verbatim>\<open>hasAccess\<close> and \<^verbatim>\<open>isCreator\<close> from the body. On a 404 it sets
  \<^verbatim>\<open>hasAccess = true\<close>, \<^verbatim>\<open>isCreator = false\<close>. When the request is rejected it logs the
  failure and the state stays as it was. On any other answer (not 2xx, not 404) the state
  stays as it was and nothing is logged. It never throws, and the answer to a request
  leaves the running intervals alone: the next tick polls again.
\<close>

theorem checkAccess_outcomes:
  "(ok code \<and> get_prop data ''hasAccess'' = Inr h \<and> get_prop data ''isCreator'' = Inr c \<longrightarrow>
        run (checkAccess cid) (Response code (Some data)) =
          [Fetch (Request GET cid CheckAccess), Dispatch (SET_HAS_ACCESS h), Dispatch (SET_CREATOR c)]
        \<and> after st (run (checkAccess cid) (Response code (Some data))) =
            st\<lparr>hasAccess := h, isCreator := c\<rparr>)
   \<and> run (checkAccess cid) (Response 404 b) =
          [Fetch (Request GET cid CheckAccess),
           Dispatch (SET_HAS_ACCESS (JBool True)), Dispatch (SET_CREATOR (JBool False))]
   \<and> after st (run (checkAccess cid) (Response 404 b)) =
          st\<lparr>hasAccess := JBool True, isCreator := JBool False\<rparr>
   \<and> run (checkAccess cid) Rejected =
          [Fetch (Request GET cid CheckAccess),
           ConsoleError ''Error checking call access:'' NetworkError]
   \<and> after st (run (checkAccess cid) Rejected) = st
   \<and> (\<not> ok code \<and> code \<noteq> 404 \<longrightarrow>
        run (checkAccess cid) (Response code b) = [Fetch (Request GET cid CheckAccess)]
        \<and> after st (run (checkAccess cid) (Response code b)) = st)
   \<and> \<not> throws (checkAccess cid) r
   \<and> timers (step (Settle i r) s) = timers s
   \<and> held (step (Settle i r) s) = held s"
  by (simp add: checkAccess_def ok_def split: fetch_result.split option.split sum.split)

theorem checkAccess_outcomes_witness:
  "after abc123 (run (checkAccess ''abc123'')
       (Response 200 (Some (JObj [(''hasAccess'', JBool True), (''isCreator'', JBool True)])))) =
     abc123\<lparr>hasAccess := JBool True, isCreator := JBool True\<rparr>
   \<and> run (checkAccess ''abc123'') (Response 502 None) =
       [Fetch (Request GET ''abc123'' CheckAccess)]"
  using checkAccess_outcomes [of 200
          "JObj [(''hasAccess'', JBool True), (''isCreator'', JBool True)]"
          "JBool True" "JBool True" "''abc123''" abc123]
        checkAccess_outcomes [of 502 JNull JNull JNull "''abc123''" abc123 None]
  by (simp add: ok_def)

text \<open>
  C6 as the specification words it has every failure logged. An answer 500 to a poll is
  such a failure, and the run holds the request and nothing else.
\<close>

theorem checkAccess_500_not_logged:
  "run (checkAccess ''abc123'') (Response 500 None) = [Fetch (Request GET ''abc123'' CheckAccess)]"
  by (simp add: checkAccess_def ok_def)

text \<open>
  C9. Whatever the answer to a poll, \<^verbatim>\<open>checkAccess\<close> dispatches nothing but
  \<^verbatim>\<open>SET_HAS_ACCESS\<close> and \<^verbatim>\<open>SET_CREATOR\<close>, and \<^verbatim>\<open>creatorInfo\<close>,
  \<^verbatim>\<open>isRequestingAccess\<close>, \<^verbatim>\<open>callId\<close> and \<^verbatim>\<open>joined\<close> are after it what they were
  before.
\<close>

theorem checkAccess_frame:
  "list_all poll_effect (run (checkAccess cid) r)
   \<and> creatorInfo (after st (run (checkAccess cid) r)) = creatorInfo st
   \<and> isRequestingAccess (after st (run (checkAccess cid) r)) = isRequestingAccess st
   \<and> callId (after st (run (checkAccess cid) r)) = callId st
   \<and> joined (after st (run (checkAccess cid) r)) = joined st"
  by (simp add: checkAccess_def split: fetch_result.split option.split sum.split)

theorem checkAccess_frame_witness:
  "creatorInfo (after abc123 (run (checkAccess ''abc123'') (Response 404 None))) = JUndefined
   \<and> isRequestingAccess (after abc123 (run (checkAccess ''abc123'') (Response 404 None))) =
       JBool False"
  using checkAccess_frame [of "''abc123''" "Response 404 None" abc123]
  by (simp add: abc123_def)

section \<open>The request for access\<close>

text \<open>
  C3. When an identified user with a call identifier asks for access,
  \<^verbatim>\<open>isRequestingAccess\<close> is set to true in the first turn, before the POST to
  \<^verbatim>\<open>request-join\<close> goes out, and the last thing the run does, whatever the answer
  (2xx, any other status, a rejected request), is to set it back to false. One request
  is sent and nothing is thrown.
\<close>

theorem handleRequestAccess_resets:
  assumes "callId st = Some cid" and "cid \<noteq> []" and "\<not> guest u"
  shows "turn (handleRequestAccess st u) =
           [Dispatch (SET_REQUESTING_ACCESS (JBool True)), Fetch (Request POST cid RequestJoin)]
       \<and> isRequestingAccess (after st (turn (handleRequestAccess st u))) = JBool True
       \<and> take 2 (run (handleRequestAccess st u) r) = turn (handleRequestAccess st u)
       \<and> last (run (handleRequestAccess st u) r) = Dispatch (SET_REQUESTING_ACCESS (JBool False))
       \<and> isRequestingAccess (after st (run (handleRequestAccess st u) r)) = JBool False
       \<and> requests (run (handleRequestAccess st u) r) = [Request POST cid RequestJoin]
       \<and> \<not> throws (handleRequestAccess st u) r"
  using assms
  by (simp add: handleRequestAccess_def ok_def split: fetch_result.split option.split sum.split)

theorem handleRequestAccess_resets_witness:
  "isRequestingAccess (after abc123 (turn (handleRequestAccess abc123 u1))) = JBool True
   \<and> isRequestingAccess (after abc123 (run (handleRequestAccess abc123 u1) (Response 200 None))) =
       JBool False
   \<and> isRequestingAccess (after abc123 (run (handleRequestAccess abc123 u1) (Response 500 None))) =
       JBool False
   \<and> isRequestingAccess (after abc123 (run (handleRequestAccess abc123 u1) Rejected)) =
       JBool False"
  using handleRequestAccess_resets [of abc123 "''abc123''" u1 "Response 200 None"]
        handleRequestAccess_resets [of abc123 "''abc123''" u1 "Response 500 None"]
        handleRequestAccess_resets [of abc123 "''abc123''" u1 Rejected]
  by (simp add: abc123_def)

text \<open>
  C7. When the answer to the POST is not 2xx, one error notification is shown. Its text
  is the \<^verbatim>\<open>error\<close> of the response body when the body has one that is truthy, and
  \<^verbatim>\<open>"Failed to send request"\<close> otherwise: when the field is missing or falsy, and (after
  a log) when the body cannot be read. In each case \<^verbatim>\<open>isRequestingAccess\<close> ends false.
\<close>

theorem request_join_failure_toast:
  assumes "callId st = Some cid" and "cid \<noteq> []" and "\<not> guest u" and "\<not> ok code"
  shows "(get_prop data ''error'' = Inr m \<and> truthy m \<longrightarrow>
            run (handleRequestAccess st u) (Response code (Some data)) =
              [Dispatch (SET_REQUESTING_ACCESS (JBool True)), Fetch (Request POST cid RequestJoin),
               ToastError m, Dispatch (SET_REQUESTING_ACCESS (JBool False))])
       \<and> (get_prop data ''error'' = Inr m \<and> \<not> truthy m \<longrightarrow>
            run (handleRequestAccess st u) (Response code (Some data)) =
              [Dispatch (SET_REQUESTING_ACCESS (JBool True)), Fetch (Request POST cid RequestJoin),
               ToastError (JStr ''Failed to send request''),
               Dispatch (SET_REQUESTING_ACCESS (JBool False))])
       \<and> (get_prop data ''error'' = Inl e \<longrightarrow>
            run (handleRequestAccess st u) (Response code (Some data)) =
              [Dispatch (SET_REQUESTING_ACCESS (JBool True)), Fetch (Request POST cid RequestJoin),
               ConsoleError ''Error requesting access:'' e,
               ToastError (JStr ''Failed to send request''),
               Dispatch (SET_REQUESTING_ACCESS (JBool False))])
       \<and> run (handleRequestAccess st u) (Response code None) =
              [Dispatch (SET_REQUESTING_ACCESS (JBool True)), Fetch (Request POST cid RequestJoin),
               ConsoleError ''Error requesting access:'' SyntaxError,
               ToastError (JStr ''Failed to send request''),
               Dispatch (SET_REQUESTING_ACCESS (JBool False))]
       \<and> isRequestingAccess (after st (run (handleRequestAccess st u) (Response code b))) =
           JBool False"
  using assms
  by (simp add: handleRequestAccess_def split: fetch_result.split option.split sum.split)

theorem request_join_failure_toast_witness:
  "run (handleRequestAccess abc123 u1)
       (Response 409 (Some (JObj [(''error'', JStr ''Already requested'')]))) =
     [Dispatch (SET_REQUESTING_ACCESS (JBool True)), Fetch (Request POST ''abc123'' RequestJoin),
      ToastError (JStr ''Already requested''), Dispatch (SET_REQUESTING_ACCESS (JBool False))]
   \<and> isRequestingAccess (after abc123 (run (handleRequestAccess abc123 u1)
         (Response 409 (Some (JObj [(''error'', JStr ''Already requested'')]))))) = JBool False
   \<and> run (handleRequestAccess abc123 u1) (Response 500 (Some (JObj []))) =
     [Dispatch (SET_REQUESTING_ACCESS (JBool True)), Fetch (Request POST ''abc123'' RequestJoin),
      ToastError (JStr ''Failed to send request''), Dispatch (SET_REQUESTING_ACCESS (JBool False))]
   \<and> run (handleRequestAccess abc123 u1) (Response 500 (Some JNull)) =
     [Dispatch (SET_REQUESTING_ACCESS (JBool True)), Fetch (Request POST ''abc123'' RequestJoin),
      ConsoleError ''Error requesting access:'' TypeError,
      ToastError (JStr ''Failed to send request''), Dispatch (SET_REQUESTING_ACCESS (JBool False))]"
  using request_join_failure_toast [of abc123 "''abc123''" u1 409
          "JObj [(''error'', JStr ''Already requested'')]" "JStr ''Already requested''" TypeError
          "Some (JObj [(''error'', JStr ''Already requested'')])"]
        request_join_failure_toast [of abc123 "''abc123''" u1 500 "JObj []" JUndefined TypeError None]
        request_join_failure_toast [of abc123 "''abc123''" u1 500 JNull JUndefined TypeError None]
  by (simp add: abc123_def ok_def)

text \<open>
  C8. When a guest with a call identifier asks for access, the whole run is one
  informational notification: no request is sent, nothing is dispatched, and the session
  state is what it was, \<^verbatim>\<open>isRequestingAccess\<close> included.
\<close>

theorem handleRequestAccess_guest_noop:
  assumes "callId st = Some cid" and "cid \<noteq> []" and "guest u"
  shows "handleRequestAccess st u = Do (ToastInfo ''Joining as guest. No approval required.'') Return
       \<and> run (handleRequestAccess st u) r = [ToastInfo ''Joining as guest. No approval required.'']
       \<and> requests (run (handleRequestAccess st u) r) = []
       \<and> after st (run (handleRequestAccess st u) r) = st"
  using assms
  by (simp add: handleRequestAccess_def)

theorem handleRequestAccess_guest_noop_witness:
  "run (handleRequestAccess abc123 visitor) Rejected =
     [ToastInfo ''Joining as guest. No approval required.'']
   \<and> run (handleRequestAccess abc123 None) Rejected =
     [ToastInfo ''Joining as guest. No approval required.'']
   \<and> after abc123 (run (handleRequestAccess abc123 visitor) Rejected) = abc123"
  using handleRequestAccess_guest_noop [of abc123 "''abc123''" visitor Rejected]
        handleRequestAccess_guest_noop [of abc123 "''abc123''" None Rejected]
  by (simp add: abc123_def)

section \<open>The interval table\<close>

lemma polling_exec [simp]: "polling (exec p s) = polling s"
  by (simp add: polling_def session_exec)

lemma deps_exec [simp]: "deps (exec p s) = deps s"
  by (simp add: deps_def session_exec)

lemma polling_perform [simp]: "polling (perform x s) = polling s"
  by (simp add: polling_def)

lemma deps_perform [simp]: "deps (perform x s) = deps s"
  by (simp add: deps_def)

lemma run_creator_effect_exec: "run_creator_effect s = exec (fetchCreatorInfo (session s)) s"
  by (simp add: run_creator_effect_def creatorEffect_def)

lemma run_access_effect_idle:
  "joined (session s) \<or> no_call (session s) \<Longrightarrow>
     run_access_effect s = s\<lparr>started := None, held := None\<rparr>"
  by (simp add: run_access_effect_def accessEffect_def)

lemma run_access_effect_guest:
  "\<not> joined (session s) \<Longrightarrow> \<not> no_call (session s) \<Longrightarrow> guest (usr s) \<Longrightarrow>
     run_access_effect s =
       (perform (Dispatch (SET_CREATOR (JBool False)))
         (perform (Dispatch (SET_HAS_ACCESS (JBool True))) (s\<lparr>started := None\<rparr>)))\<lparr>held := None\<rparr>"
  by (simp add: run_access_effect_def accessEffect_def)

lemma run_access_effect_polling:
  "polling s \<Longrightarrow> callId (session s) = Some cid \<Longrightarrow>
     run_access_effect s =
       (exec (checkAccess cid) (s\<lparr>started := None\<rparr>))
         \<lparr>timers := timers s @ [(fresh s, checkAccess cid, 3000)],
          started := Some (fresh s), fresh := Suc (fresh s), held := Some (fresh s)\<rparr>"
  by (simp add: run_access_effect_def accessEffect_def polling_def)

lemma polling_callId: "polling s \<Longrightarrow> \<exists>cid. callId (session s) = Some cid \<and> cid \<noteq> []"
  by (auto simp: polling_def no_call_def split: option.splits)

lemma inv_timers_run_access_effect:
  assumes "timers s = []"
  shows "inv_timers (run_access_effect s)"
proof (cases "polling s")
  case True
  then obtain cid where c: "callId (session s) = Some cid" "cid \<noteq> []"
    using polling_callId by blast
  show ?thesis
    using True c assms
    by (simp add: run_access_effect_polling [OF True c(1)] inv_timers_def expected_timers_def
        polling_def session_exec)
next
  case False
  then consider "joined (session s) \<or> no_call (session s)"
    | "\<not> joined (session s)" "\<not> no_call (session s)" "guest (usr s)"
    by (auto simp: polling_def)
  then show ?thesis
  proof cases
    case 1
    then show ?thesis
      using assms
      by (auto simp: run_access_effect_idle inv_timers_def expected_timers_def polling_def
          split: option.splits)
  next
    case 2
    then show ?thesis
      using assms
      by (simp add: run_access_effect_guest inv_timers_def expected_timers_def polling_def
          split: option.splits)
  qed
qed

lemma expected_timers_exec [simp]: "expected_timers (exec p s) = expected_timers s"
  by (simp add: expected_timers_def session_exec split: option.split)

lemma inv_timers_exec [simp]: "inv_timers (exec p s) = inv_timers s"
  by (simp add: inv_timers_def)

lemma inv_timers_mount: "inv_timers (mount st u)"
  by (simp add: mount_def inv_timers_run_access_effect run_creator_effect_exec)

lemma inv_timers_same_deps:
  assumes "inv_timers s" and "deps s' = deps s" and "timers s' = timers s"
    and "held s' = held s" and "fresh s' = fresh s"
  shows "inv_timers s'"
proof -
  have "guest (usr s') = guest (usr s)"
    using assms(2) by (simp add: deps_def guest_def)
  moreover have "no_call (session s') = no_call (session s)"
    using assms(2) by (simp add: deps_def no_call_def)
  ultimately have "polling s' = polling s"
    using assms(2) by (simp add: polling_def deps_def)
  moreover have "callId (session s') = callId (session s)"
    using assms(2) by (simp add: deps_def)
  ultimately have "expected_timers s' = expected_timers s"
    by (simp add: expected_timers_def split: option.split)
  then show ?thesis
    using assms by (simp add: inv_timers_def)
qed

lemma cleanup_access_fields [simp]:
  "session (cleanup_access s) = session s"
  "usr (cleanup_access s) = usr s"
  "in_flight (cleanup_access s) = in_flight s"
  "trace (cleanup_access s) = trace s"
  "fresh (cleanup_access s) = fresh s"
  by (simp_all add: cleanup_access_def split: option.split)

lemma inv_timers_rerender:
  assumes "inv_timers old" and "timers new = timers old" and "held new = held old"
    and "fresh new = fresh old"
  shows "inv_timers (rerender old new)"
proof (cases "deps new = deps old")
  case True
  then have "rerender old new = new"
    by (simp add: rerender_def deps_def)
  then show ?thesis
    using inv_timers_same_deps [OF assms(1) True assms(2,3,4)] by simp
next
  case False
  have m: "map fst (timers new) = (case held new of None \<Rightarrow> [] | Some h \<Rightarrow> [h])"
    using assms by (simp add: inv_timers_def)
  have c: "timers (cleanup_access new) = []"
    using m by (auto simp: cleanup_access_def split: option.splits)
  from False have a: "callId (session new) \<noteq> callId (session old)
      \<or> user_id (usr new) \<noteq> user_id (usr old) \<or> joined (session new) \<noteq> joined (session old)"
    by (auto simp: deps_def)
  show ?thesis
    using a c
    by (auto simp: rerender_def Let_def run_creator_effect_exec intro!: inv_timers_run_access_effect)
qed

lemma inv_timers_step: "inv_timers s \<Longrightarrow> inv_timers (step e s)"
proof (cases e)
  case (Tick h)
  assume "inv_timers s"
  then show ?thesis
    using Tick by (simp split: option.split prod.split)
next
  case (Settle i r)
  assume "inv_timers s"
  then have "inv_timers (s\<lparr>in_flight := take i (in_flight s) @ drop (Suc i) (in_flight s)\<rparr>)"
    by (rule inv_timers_same_deps) (simp_all add: deps_def)
  then show ?thesis
    using Settle \<open>inv_timers s\<close> by simp
next
  case ClickRequestAccess
  assume "inv_timers s"
  then show ?thesis
    using ClickRequestAccess by simp
next
  case (SetJoined b)
  assume "inv_timers s"
  then show ?thesis
    using SetJoined by (simp add: inv_timers_rerender)
next
  case (SetCallId c)
  assume "inv_timers s"
  then show ?thesis
    using SetCallId by (simp add: inv_timers_rerender)
next
  case (SetUser u)
  assume "inv_timers s"
  then show ?thesis
    using SetUser by (simp add: inv_timers_rerender)
qed

lemma find_handle:
  "find (\<lambda>t. fst t = h) ts = Some t \<Longrightarrow> fst t = h \<and> t \<in> set ts"
  by (induction ts) (auto split: if_splits)

lemma timer_is_poll:
  assumes "inv_timers s" and "find (\<lambda>t. fst t = h) (timers s) = Some (h', p, ms)"
  shows "\<exists>cid. callId (session s) = Some cid \<and> polling s \<and> timers s = [(h, checkAccess cid, 3000)]
           \<and> h' = h \<and> p = checkAccess cid \<and> ms = 3000"
proof -
  from assms(2) have m: "(h', p, ms) \<in> set (timers s)" and h: "h' = h"
    by (auto dest: find_handle)
  then have "(p, ms) \<in> set (map snd (timers s))"
    by force
  moreover have "map snd (timers s) = expected_timers s"
    using assms(1) by (simp add: inv_timers_def)
  ultimately have e: "(p, ms) \<in> set (expected_timers s)"
    by metis
  then obtain cid where c: "callId (session s) = Some cid" "polling s" "p = checkAccess cid" "ms = 3000"
    by (cases "callId (session s)") (auto simp: expected_timers_def split: if_splits)
  then have "map snd (timers s) = [(checkAccess cid, 3000)]"
    using assms(1) by (simp add: inv_timers_def expected_timers_def)
  then have "timers s = [(h, checkAccess cid, 3000)]"
    using m h c by (cases "timers s") auto
  with c h show ?thesis by simp
qed

section \<open>Requests in flight\<close>

lemma requests_silent: "silent x \<Longrightarrow> requests (x # xs) = requests xs"
  by (cases x) simp_all

lemma only_silent: "only silent p \<Longrightarrow> requests (turn p) = [] \<and> cont p = []"
  by (induction p) (simp_all add: requests_silent)

lemma quiet_cont_append [simp]: "quiet_cont (xs @ ys) = (quiet_cont xs \<and> quiet_cont ys)"
  by (auto simp: quiet_cont_def)

lemma quiet_cont_Nil [simp]: "quiet_cont []"
  by (simp add: quiet_cont_def)

lemma quiet_cont_fetchCreatorInfo: "quiet_cont (cont (fetchCreatorInfo st))"
  by (simp add: quiet_cont_def fetchCreatorInfo_def split: option.split fetch_result.split sum.split)

lemma quiet_cont_checkAccess: "quiet_cont (cont (checkAccess cid))"
  by (simp add: quiet_cont_def checkAccess_def split: option.split fetch_result.split sum.split)

lemma quiet_cont_handleRequestAccess: "quiet_cont (cont (handleRequestAccess st u))"
  by (simp add: quiet_cont_def handleRequestAccess_def split: option.split fetch_result.split sum.split)

lemma in_flight_run_access_effect:
  "in_flight (run_access_effect s) =
     in_flight s @ (case callId (session s) of None \<Rightarrow> []
                    | Some cid \<Rightarrow> if polling s then cont (checkAccess cid) else [])"
  by (simp add: run_access_effect_def accessEffect_def polling_def in_flight_exec no_call_def
      split: option.split)

lemma quiet_run_access_effect:
  "quiet_cont (in_flight s) \<Longrightarrow> quiet_cont (in_flight (run_access_effect s))"
  by (simp add: in_flight_run_access_effect quiet_cont_checkAccess split: option.split)

lemma quiet_rerender:
  "quiet_cont (in_flight new) \<Longrightarrow> quiet_cont (in_flight (rerender old new))"
  by (simp add: rerender_def Let_def quiet_run_access_effect run_creator_effect_exec
      in_flight_exec quiet_cont_fetchCreatorInfo)

lemma quiet_cont_remove:
  "quiet_cont es \<Longrightarrow> quiet_cont (take i es) \<and> quiet_cont (drop (Suc i) es)"
  by (auto simp: quiet_cont_def dest: in_set_takeD in_set_dropD)

lemma quiet_cont_nth:
  "quiet_cont es \<Longrightarrow> i < length es \<Longrightarrow> only silent (snd (es ! i) r)"
  by (simp add: quiet_cont_def)

lemma quiet_step:
  assumes "inv_timers s" and q: "quiet_cont (in_flight s)"
  shows "quiet_cont (in_flight (step e s))"
proof (cases e)
  case (Tick h)
  show ?thesis
  proof (cases "find (\<lambda>t. fst t = h) (timers s)")
    case None
    with q Tick show ?thesis by simp
  next
    case (Some t)
    obtain h' p ms where t: "t = (h', p, ms)" by (cases t)
    from timer_is_poll [OF assms(1) Some [unfolded t]]
    obtain cid where "p = checkAccess cid" by blast
    then show ?thesis
      using q Tick Some t by (simp add: in_flight_exec quiet_cont_checkAccess)
  qed
next
  case (Settle i r)
  from q show ?thesis
    using Settle
    by (simp add: in_flight_exec quiet_cont_remove only_silent [OF quiet_cont_nth])
next
  case ClickRequestAccess
  from q show ?thesis
    using ClickRequestAccess by (simp add: in_flight_exec quiet_cont_handleRequestAccess)
next
  case (SetJoined b)
  from q show ?thesis
    using SetJoined by (simp add: quiet_rerender)
next
  case (SetCallId c)
  from q show ?thesis
    using SetCallId by (simp add: quiet_rerender)
next
  case (SetUser u)
  from q show ?thesis
    using SetUser by (simp add: quiet_rerender)
qed

lemma sound_mount: "sound (mount st u)"
proof -
  have "quiet_cont (in_flight (mount st u))"
    by (simp add: mount_def quiet_run_access_effect run_creator_effect_exec in_flight_exec
        quiet_cont_fetchCreatorInfo)
  then show ?thesis
    by (simp add: sound_def inv_timers_mount)
qed

lemma sound_step: "sound s \<Longrightarrow> sound (step e s)"
  by (simp add: sound_def inv_timers_step quiet_step)

lemma sound_fold: "sound s \<Longrightarrow> sound (fold step evs s)"
  by (induction evs arbitrary: s) (simp_all add: sound_step)

lemma sound_reach: "sound (fold step evs (mount st u))"
  by (simp add: sound_fold sound_mount)

section \<open>The polls an event sends\<close>

lemma polls_simps [simp]:
  "polls (Request m cid CheckAccess)"
  "\<not> polls (Request m cid Creator)"
  "\<not> polls (Request m cid RequestJoin)"
  by (simp_all add: polls_def)

lemma deps_run_access_effect [simp]: "deps (run_access_effect s) = deps s"
  by (simp add: run_access_effect_def accessEffect_def deps_def session_exec split: option.split)

lemma deps_cleanup_access [simp]: "deps (cleanup_access s) = deps s"
  by (simp add: deps_def)

lemma deps_run_creator_effect [simp]: "deps (run_creator_effect s) = deps s"
  by (simp add: run_creator_effect_exec)

lemma deps_rerender [simp]: "deps (rerender old new) = deps new"
  by (simp add: rerender_def Let_def)

lemma polling_deps: "deps s' = deps s \<Longrightarrow> polling s' = polling s"
  by (simp add: deps_def polling_def guest_def no_call_def)

lemma expected_polls_deps: "deps s' = deps s \<Longrightarrow> expected_polls s' = expected_polls s"
  using polling_deps [of s' s]
  by (simp add: expected_polls_def deps_def split: option.split)

lemma polls_fetchCreatorInfo: "filter polls (requests (turn (fetchCreatorInfo st))) = []"
  by (simp add: fetchCreatorInfo_def split: option.split)

lemma polls_handleRequestAccess: "filter polls (requests (turn (handleRequestAccess st u))) = []"
  by (simp add: handleRequestAccess_def split: option.split)

lemma polls_checkAccess: "requests (turn (checkAccess cid)) = [Request GET cid CheckAccess]"
  by (simp add: checkAccess_def)

lemma trace_run_access_effect:
  "\<exists>xs. trace (run_access_effect s) = trace s @ xs \<and> filter polls (requests xs) = expected_polls s"
proof (cases "polling s")
  case True
  then obtain cid where c: "callId (session s) = Some cid"
    using polling_callId by blast
  show ?thesis
    using True c
    by (simp add: run_access_effect_polling [OF True c] trace_exec expected_polls_def
        polls_checkAccess)
next
  case False
  then consider "joined (session s) \<or> no_call (session s)"
    | "\<not> joined (session s)" "\<not> no_call (session s)" "guest (usr s)"
    by (auto simp: polling_def)
  then show ?thesis
  proof cases
    case 1
    then show ?thesis
      using False by (simp add: run_access_effect_idle expected_polls_def split: option.split)
  next
    case 2
    then show ?thesis
      using False by (simp add: run_access_effect_guest expected_polls_def split: option.split)
  qed
qed

lemma trace_rerender:
  assumes "trace new = trace old"
  shows "\<exists>xs. trace (rerender old new) = trace old @ xs
           \<and> filter polls (requests xs) = (if deps new \<noteq> deps old then expected_polls new else [])"
proof (cases "deps new = deps old")
  case True
  then have "rerender old new = new"
    by (simp add: rerender_def deps_def)
  then show ?thesis
    using True assms by simp
next
  case False
  then have a: "callId (session new) \<noteq> callId (session old)
      \<or> user_id (usr new) \<noteq> user_id (usr old) \<or> joined (session new) \<noteq> joined (session old)"
    by (auto simp: deps_def)
  define s2 where "s2 = (if callId (session new) \<noteq> callId (session old)
                         then run_creator_effect (cleanup_access new) else cleanup_access new)"
  have r: "rerender old new = run_access_effect s2"
    using a by (auto simp: rerender_def Let_def s2_def)
  have d: "deps s2 = deps new"
    by (simp add: s2_def)
  have "trace s2 = trace old @ (if callId (session new) \<noteq> callId (session old)
                                 then turn (fetchCreatorInfo (session new)) else [])"
    using assms by (simp add: s2_def run_creator_effect_exec trace_exec)
  moreover have "filter polls (requests (if callId (session new) \<noteq> callId (session old)
                                 then turn (fetchCreatorInfo (session new)) else [])) = []"
    by (simp add: polls_fetchCreatorInfo)
  ultimately obtain ys where ys: "trace s2 = trace old @ ys" "filter polls (requests ys) = []"
    by blast
  obtain xs where xs: "trace (run_access_effect s2) = trace s2 @ xs"
      "filter polls (requests xs) = expected_polls s2"
    using trace_run_access_effect by blast
  have "trace (rerender old new) = trace old @ (ys @ xs)"
    using r xs ys by simp
  moreover have "filter polls (requests (ys @ xs)) = expected_polls new"
    using xs ys expected_polls_deps [OF d] by (simp add: requests_append)
  ultimately show ?thesis
    using False by (metis (full_types))
qed

lemma sent_eq: "trace (step e s) = trace s @ xs \<Longrightarrow> sent e s = requests xs"
  by (simp add: sent_def)

lemma timer_found:
  "h \<in> set (map fst ts) \<Longrightarrow> \<exists>t. find (\<lambda>t. fst t = h) ts = Some t"
  by (induction ts) auto

lemma polls_rerender:
  assumes "trace new = trace old"
  shows "filter polls (requests (drop (length (trace old)) (trace (rerender old new)))) =
           (if deps (rerender old new) \<noteq> deps old then expected_polls (rerender old new) else [])"
proof -
  have "expected_polls (rerender old new) = expected_polls new"
    by (rule expected_polls_deps) simp
  moreover obtain xs where "trace (rerender old new) = trace old @ xs"
      "filter polls (requests xs) = (if deps new \<noteq> deps old then expected_polls new else [])"
    using trace_rerender [OF assms] by blast
  ultimately show ?thesis
    by simp
qed

lemma polls_sent:
  assumes "sound s"
  shows "filter polls (sent e s) =
           (if deps (step e s) \<noteq> deps s \<or> fires e s then expected_polls (step e s) else [])"
proof (cases e)
  case (Tick h)
  show ?thesis
  proof (cases "find (\<lambda>t. fst t = h) (timers s)")
    case None
    then have "h \<notin> set (map fst (timers s))"
      using timer_found by fastforce
    then show ?thesis
      using None Tick by (simp add: sent_def)
  next
    case (Some t)
    obtain h' p ms where t: "t = (h', p, ms)" by (cases t)
    from assms have "inv_timers s" by (simp add: sound_def)
    from timer_is_poll [OF this Some [unfolded t]]
    obtain cid where c: "callId (session s) = Some cid" "polling s"
        "timers s = [(h, checkAccess cid, 3000)]" "p = checkAccess cid"
      by blast
    have "trace (step e s) = trace s @ turn (checkAccess cid)"
      using Tick Some t c by (simp add: trace_exec)
    then have "sent e s = [Request GET cid CheckAccess]"
      by (simp add: sent_eq polls_checkAccess)
    moreover have "expected_polls (step e s) = [Request GET cid CheckAccess]"
      using Tick Some t c by (simp add: expected_polls_def session_exec)
    ultimately show ?thesis
      using Tick c by simp
  qed
next
  case (Settle i r)
  show ?thesis
  proof (cases "i < length (in_flight s)")
    case True
    from assms have "only silent (snd (in_flight s ! i) r)"
      using True by (simp add: sound_def quiet_cont_nth)
    then have "requests (turn (snd (in_flight s ! i) r)) = []"
      by (simp add: only_silent)
    moreover have "trace (step e s) = trace s @ turn (snd (in_flight s ! i) r)"
      using Settle True by (simp add: trace_exec)
    ultimately have "sent e s = []"
      by (simp add: sent_eq)
    then show ?thesis
      using Settle True by (simp add: deps_def session_exec)
  next
    case False
    then show ?thesis
      using Settle by (simp add: sent_def)
  qed
next
  case ClickRequestAccess
  have "trace (step e s) = trace s @ turn (handleRequestAccess (session s) (usr s))"
    using ClickRequestAccess by (simp add: trace_exec)
  then have "filter polls (sent e s) = []"
    by (simp add: sent_eq polls_handleRequestAccess)
  then show ?thesis
    using ClickRequestAccess by simp
next
  case (SetJoined b)
  then show ?thesis
    by (simp add: sent_def polls_rerender)
next
  case (SetCallId c)
  then show ?thesis
    by (simp add: sent_def polls_rerender)
next
  case (SetUser u)
  then show ?thesis
    by (simp add: sent_def polls_rerender)
qed

lemma polls_mount: "filter polls (requests (trace (mount st u))) = expected_polls (mount st u)"
proof -
  let ?s0 = "\<lparr>session = st, usr = u, in_flight = [], timers = [], fresh = 0,
              started = None, held = None, trace = []\<rparr>"
  obtain xs where "trace (run_access_effect (run_creator_effect ?s0)) =
      trace (run_creator_effect ?s0) @ xs"
    "filter polls (requests xs) = expected_polls (run_creator_effect ?s0)"
    using trace_run_access_effect by blast
  moreover have "expected_polls (mount st u) = expected_polls (run_creator_effect ?s0)"
    by (rule expected_polls_deps) (simp add: mount_def)
  ultimately show ?thesis
    by (simp add: mount_def run_creator_effect_exec trace_exec requests_append
        polls_fetchCreatorInfo)
qed

lemma timers_run_access_effect:
  "timers s = [] \<Longrightarrow> list_all (\<lambda>t. fst t = fresh s) (timers (run_access_effect s))"
  by (simp add: run_access_effect_def accessEffect_def split: option.split)

lemma fresh_run_creator_effect [simp]: "fresh (run_creator_effect s) = fresh s"
  by (simp add: run_creator_effect_exec)

lemma timers_run_creator_effect [simp]: "timers (run_creator_effect s) = timers s"
  by (simp add: run_creator_effect_exec)

lemma timers_rerender:
  assumes "inv_timers old" and "timers new = timers old" and "held new = held old"
    and "fresh new = fresh old" and "deps new \<noteq> deps old"
  shows "list_all (\<lambda>t. fst t = fresh old) (timers (rerender old new))"
proof -
  have "map fst (timers new) = (case held new of None \<Rightarrow> [] | Some h \<Rightarrow> [h])"
    using assms by (simp add: inv_timers_def)
  then have c: "timers (cleanup_access new) = []"
    by (auto simp: cleanup_access_def split: option.splits)
  from assms(5) have a: "callId (session new) \<noteq> callId (session old)
      \<or> user_id (usr new) \<noteq> user_id (usr old) \<or> joined (session new) \<noteq> joined (session old)"
    by (auto simp: deps_def)
  define s2 where "s2 = (if callId (session new) \<noteq> callId (session old)
                         then run_creator_effect (cleanup_access new) else cleanup_access new)"
  have r: "rerender old new = run_access_effect s2"
    using a by (auto simp: rerender_def Let_def s2_def)
  have "timers s2 = []" and "fresh s2 = fresh old"
    using c assms(4) by (simp_all add: s2_def)
  then show ?thesis
    using timers_run_access_effect [of s2] r by simp
qed

lemma deps_step_cases:
  "deps (step e s) \<noteq> deps s \<Longrightarrow>
     (\<exists>new. step e s = rerender s new \<and> timers new = timers s \<and> held new = held s
         \<and> fresh new = fresh s \<and> deps new \<noteq> deps s)"
proof (cases e)
  case (Tick h)
  assume "deps (step e s) \<noteq> deps s"
  then show ?thesis
    using Tick by (simp split: option.splits prod.splits)
next
  case (Settle i r)
  assume "deps (step e s) \<noteq> deps s"
  then show ?thesis
    using Settle by (simp add: deps_def session_exec split: if_splits)
next
  case ClickRequestAccess
  assume "deps (step e s) \<noteq> deps s"
  then show ?thesis
    using ClickRequestAccess by simp
next
  case (SetJoined b)
  assume "deps (step e s) \<noteq> deps s"
  then show ?thesis
    using SetJoined by (intro exI [of _ "s\<lparr>session := (session s)\<lparr>joined := b\<rparr>\<rparr>"]) simp
next
  case (SetCallId c)
  assume "deps (step e s) \<noteq> deps s"
  then show ?thesis
    using SetCallId by (intro exI [of _ "s\<lparr>session := (session s)\<lparr>callId := c\<rparr>\<rparr>"]) simp
next
  case (SetUser u)
  assume "deps (step e s) \<noteq> deps s"
  then show ?thesis
    using SetUser by (intro exI [of _ "s\<lparr>usr := u\<rparr>"]) simp
qed

lemma teardown:
  assumes "sound s" and "deps (step e s) \<noteq> deps s"
  shows "list_all (\<lambda>t. fst t \<notin> set (map fst (timers s))) (timers (step e s))"
proof -
  from assms have i: "inv_timers s"
    by (simp add: sound_def)
  obtain new where n: "step e s = rerender s new" "timers new = timers s" "held new = held s"
      "fresh new = fresh s" "deps new \<noteq> deps s"
    using deps_step_cases [OF assms(2)] by blast
  have "list_all (\<lambda>t. fst t = fresh s) (timers (step e s))"
    using timers_rerender [OF i n(2,3,4,5)] n(1) by simp
  moreover have "\<forall>t \<in> set (timers s). fst t < fresh s"
    using i by (simp add: inv_timers_def list_all_iff)
  then have "fresh s \<notin> set (map fst (timers s))"
    by auto
  ultimately show ?thesis
    by (auto simp: list_all_iff)
qed

lemma deps_step_Tick [simp]: "deps (step (Tick h) s) = deps s"
  by (simp split: option.split prod.split)

lemma deps_step_SetJoined [simp]:
  "deps (step (SetJoined b) s) = (callId (session s), user_id (usr s), b)"
proof -
  have "deps (step (SetJoined b) s) = deps (s\<lparr>session := (session s)\<lparr>joined := b\<rparr>\<rparr>)"
    by simp
  also have "\<dots> = (callId (session s), user_id (usr s), b)"
    by (simp add: deps_def)
  finally show ?thesis .
qed

lemma deps_mount [simp]: "deps (mount st u) = (callId st, user_id u, joined st)"
  by (simp add: mount_def) (simp add: deps_def)

lemma polling_by_deps:
  "polling s = (case deps s of (c, i, j) \<Rightarrow>
      \<not> j \<and> (case c of None \<Rightarrow> False | Some cid \<Rightarrow> cid \<noteq> [])
      \<and> (case i of None \<Rightarrow> False | Some x \<Rightarrow> x \<noteq> [] \<and> x \<noteq> ''guest''))"
  by (simp add: polling_def deps_def no_call_def guest_def split: option.split)

lemma callId_by_deps: "callId (session s) = fst (deps s)"
  by (simp add: deps_def)

lemma timers_mount:
  "timers (mount st u) =
     (case callId st of
        None \<Rightarrow> []
      | Some cid \<Rightarrow> if \<not> joined st \<and> cid \<noteq> [] \<and> \<not> guest u then [(0, checkAccess cid, 3000)] else [])"
  by (simp add: mount_def run_access_effect_def accessEffect_def run_creator_effect_exec
      session_exec no_call_def split: option.split)


lemma usr_run_access_effect [simp]: "usr (run_access_effect s) = usr s"
  by (simp add: run_access_effect_def accessEffect_def split: option.split)

lemma usr_run_creator_effect [simp]: "usr (run_creator_effect s) = usr s"
  by (simp add: run_creator_effect_exec)

lemma usr_rerender [simp]: "usr (rerender old new) = usr new"
  by (simp add: rerender_def Let_def)

lemma usr_mount [simp]: "usr (mount st u) = u"
  by (simp add: mount_def)

section \<open>The life of the polling timer\<close>

text \<open>
  C4. In every state \<open>s\<close> that a mounted hook reaches, and for every event \<open>e\<close> that
  happens there: the running intervals are the expected ones, that is one interval, with
  \<^verbatim>\<open>checkAccess\<close> for the current call as callback and a period of 3000 ms, while
  \<^verbatim>\<open>joined\<close> is false, the call identifier is set and the user is identified, and none
  otherwise. The first render sends the immediate poll when the effect passes its
  guards. An event sends a poll only if it changes a dependency of the polling effect
  or is a tick of the running interval, and then it sends the one poll of the state it
  leads to: none once \<^verbatim>\<open>joined\<close> is true or the call identifier is empty, and never
  one for a call identifier that is not the current one. When an event changes a
  dependency (\<^verbatim>\<open>joined\<close> becomes true, the call identifier changes), no interval that
  was running survives it.
\<close>

theorem polling_lifecycle:
  "let s = fold step evs (mount st u); s' = step e s in
     map snd (timers s) = expected_timers s
   \<and> filter polls (requests (trace (mount st u))) = expected_polls (mount st u)
   \<and> filter polls (sent e s) =
       (if deps s' \<noteq> deps s \<or> fires e s then expected_polls s' else [])
   \<and> (deps s' \<noteq> deps s \<longrightarrow>
        list_all (\<lambda>t. fst t \<notin> set (map fst (timers s))) (timers s'))"
proof -
  define s where "s = fold step evs (mount st u)"
  have snd: "sound s"
    by (simp add: s_def sound_reach)
  then have a: "map snd (timers s) = expected_timers s"
    by (simp add: sound_def inv_timers_def)
  show ?thesis
    using a polls_mount [of st u] polls_sent [OF snd] teardown [OF snd]
    by (simp add: Let_def s_def [symmetric])
qed

theorem polling_lifecycle_witness:
  "deps (step (SetJoined True) (mount abc123 u1)) \<noteq> deps (mount abc123 u1)
   \<and> map snd (timers (mount abc123 u1)) = [(checkAccess ''abc123'', 3000)]
   \<and> filter polls (requests (trace (mount abc123 u1))) = [Request GET ''abc123'' CheckAccess]
   \<and> filter polls (sent (Tick 0) (mount abc123 u1)) = [Request GET ''abc123'' CheckAccess]
   \<and> filter polls (sent (SetJoined True) (mount abc123 u1)) = []
   \<and> map snd (timers (step (SetJoined True) (mount abc123 u1))) = []"
  using polling_lifecycle [of "[]" abc123 u1 "SetJoined True"]
        polling_lifecycle [of "[]" abc123 u1 "Tick 0"]
        polling_lifecycle [of "[SetJoined True]" abc123 u1 "Tick 0"]
  by (simp add: Let_def expected_timers_def expected_polls_def polling_by_deps callId_by_deps
      timers_mount abc123_def u1_def user_id_def guest_def del: step.simps)

section \<open>Guests\<close>

lemma usr_step: "stays_guest e \<Longrightarrow> guest (usr s) \<Longrightarrow> guest (usr (step e s))"
  by (cases e) (simp_all split: option.split prod.split)

lemma trace_step: "\<exists>xs. trace (step e s) = trace s @ xs"
proof (cases e)
  case (Tick h)
  then show ?thesis
    by (simp add: trace_exec split: option.split prod.split)
next
  case (Settle i r)
  then show ?thesis
    by (simp add: trace_exec)
next
  case ClickRequestAccess
  then show ?thesis
    by (simp add: trace_exec)
next
  case (SetJoined b)
  then show ?thesis
    using trace_rerender [of "s\<lparr>session := (session s)\<lparr>joined := b\<rparr>\<rparr>" s] by auto
next
  case (SetCallId c)
  then show ?thesis
    using trace_rerender [of "s\<lparr>session := (session s)\<lparr>callId := c\<rparr>\<rparr>" s] by auto
next
  case (SetUser u)
  then show ?thesis
    using trace_rerender [of "s\<lparr>usr := u\<rparr>" s] by auto
qed

lemma requests_step: "requests (trace (step e s)) = requests (trace s) @ sent e s"
proof -
  obtain xs where "trace (step e s) = trace s @ xs"
    using trace_step by blast
  then show ?thesis
    by (simp add: sent_def requests_append)
qed

lemma guest_expected_polls: "guest (usr s) \<Longrightarrow> expected_polls s = []"
  by (simp add: expected_polls_def polling_def split: option.split)

lemma guest_expected_timers: "guest (usr s) \<Longrightarrow> expected_timers s = []"
  by (simp add: expected_timers_def polling_def split: option.split)

lemma guest_fold:
  assumes "list_all stays_guest evs" and "guest (usr s)" and "sound s"
    and "filter polls (requests (trace s)) = []"
  shows "guest (usr (fold step evs s)) \<and> filter polls (requests (trace (fold step evs s))) = []"
  using assms
proof (induction evs arbitrary: s)
  case Nil
  then show ?case by simp
next
  case (Cons e evs)
  have g: "guest (usr (step e s))"
    using Cons.prems by (simp add: usr_step)
  have "filter polls (sent e s) = []"
    using polls_sent [OF Cons.prems(3)] guest_expected_polls [OF g] by simp
  then have "filter polls (requests (trace (step e s))) = []"
    using Cons.prems(4) by (simp add: requests_step)
  then show ?case
    using Cons.IH [of "step e s"] Cons.prems g by (simp add: sound_step)
qed

lemma session_mount_guest:
  assumes "guest u" and "\<not> joined st" and "\<not> no_call st"
  shows "session (mount st u) = st\<lparr>hasAccess := JBool True, isCreator := JBool False\<rparr>"
proof -
  have "turn (fetchCreatorInfo st) = [] \<or> (\<exists>q. turn (fetchCreatorInfo st) = [Fetch q])"
    by (simp add: fetchCreatorInfo_def split: option.split)
  then have "after st (turn (fetchCreatorInfo st)) = st"
    by auto
  then show ?thesis
    using assms
    by (simp add: mount_def run_access_effect_def accessEffect_def run_creator_effect_exec
        session_exec)
qed

text \<open>
  C2. For a user with no id or the id \<^verbatim>\<open>"guest"\<close>, and as long as the user stays one:
  whatever happens, no request to the check-access endpoint is ever sent and no interval
  is ever started. When the polling effect passes its guards (not joined, a call
  identifier), its body consists of the two dispatches \<^verbatim>\<open>hasAccess = true\<close> and
  \<^verbatim>\<open>isCreator = false\<close>, and both are in the state at the end of the first render, before
  any answer from the network.
\<close>

theorem guest_never_polls:
  assumes "guest u" and "list_all stays_guest evs"
  shows "filter polls (requests (trace (fold step evs (mount st u)))) = []
       \<and> timers (fold step evs (mount st u)) = []
       \<and> (\<not> joined st \<and> \<not> no_call st \<longrightarrow>
            cmds (accessEffect st u) =
              [Emit (Dispatch (SET_HAS_ACCESS (JBool True))),
               Emit (Dispatch (SET_CREATOR (JBool False)))]
            \<and> hasAccess (session (mount st u)) = JBool True
            \<and> isCreator (session (mount st u)) = JBool False)"
proof -
  have u: "guest (usr (mount st u))"
    using assms(1) by simp
  have p: "filter polls (requests (trace (mount st u))) = []"
    using polls_mount [of st u] guest_expected_polls [OF u] by simp
  have g: "guest (usr (fold step evs (mount st u)))"
      "filter polls (requests (trace (fold step evs (mount st u)))) = []"
    using guest_fold [OF assms(2) u sound_mount p] by simp_all
  have "map snd (timers (fold step evs (mount st u))) = []"
    using sound_reach [of evs st u] guest_expected_timers [OF g(1)]
    by (simp add: sound_def inv_timers_def)
  then show ?thesis
    using g(2) assms(1) by (simp add: session_mount_guest accessEffect_def)
qed

theorem guest_never_polls_witness:
  "filter polls (requests (trace (fold step [Tick 0, SetJoined True, SetUser None]
       (mount abc123 visitor)))) = []
   \<and> hasAccess (session (mount abc123 visitor)) = JBool True
   \<and> isCreator (session (mount abc123 visitor)) = JBool False"
  using guest_never_polls [of visitor "[Tick 0, SetJoined True, SetUser None]" abc123]
  by (simp add: abc123_def no_call_def del: step.simps)

lemma trace_run_access_effect_guest:
  "guest (usr s) \<Longrightarrow> \<exists>xs. trace (run_access_effect s) = trace s @ xs \<and> requests xs = []"
  by (simp add: run_access_effect_def accessEffect_def)

lemma turn_fetchCreatorInfo:
  "callId st = Some cid \<Longrightarrow> cid \<noteq> [] \<Longrightarrow>
     turn (fetchCreatorInfo st) = [Fetch (Request GET cid Creator)]"
  by (simp add: fetchCreatorInfo_def)

text \<open>
  C10. The creator fetch does not look at the user. With a call identifier, the first
  effect calls \<^verbatim>\<open>fetchCreatorInfo\<close>, whose first turn is the request to the creator
  endpoint; for a guest the first render sends that request and no other, and so does a
  change of the call identifier. The shortcut for guests is in the polling effect only.
\<close>

theorem creator_fetch_for_guests:
  assumes "cid \<noteq> []"
  shows "(callId st = Some cid \<longrightarrow>
            cmds (creatorEffect st) = [Call (fetchCreatorInfo st)]
            \<and> turn (fetchCreatorInfo st) = [Fetch (Request GET cid Creator)])
       \<and> (guest u \<and> callId st = Some cid \<longrightarrow>
            requests (trace (mount st u)) = [Request GET cid Creator])
       \<and> (guest (usr s) \<and> callId (session s) \<noteq> Some cid \<longrightarrow>
            sent (SetCallId (Some cid)) s = [Request GET cid Creator])"
proof -
  have a: "turn (fetchCreatorInfo st) = [Fetch (Request GET cid Creator)]"
    if "callId st = Some cid" for st
    using that assms by (rule turn_fetchCreatorInfo)
  have b: "requests (trace (mount st u)) = [Request GET cid Creator]"
    if "guest u" "callId st = Some cid"
  proof -
    let ?s0 = "\<lparr>session = st, usr = u, in_flight = [], timers = [], fresh = 0,
                started = None, held = None, trace = []\<rparr>"
    have "guest (usr (run_creator_effect ?s0))"
      using that(1) by simp
    then obtain xs where "trace (mount st u) = trace (run_creator_effect ?s0) @ xs" "requests xs = []"
      using trace_run_access_effect_guest unfolding mount_def by blast
    then show ?thesis
      using a [OF that(2)] by (simp add: run_creator_effect_exec trace_exec requests_append)
  qed
  have c: "sent (SetCallId (Some cid)) s = [Request GET cid Creator]"
    if "guest (usr s)" "callId (session s) \<noteq> Some cid"
  proof -
    define new where "new = s\<lparr>session := (session s)\<lparr>callId := Some cid\<rparr>\<rparr>"
    define s2 where "s2 = run_creator_effect (cleanup_access new)"
    have r: "step (SetCallId (Some cid)) s = run_access_effect s2"
      using that(2) by (auto simp: rerender_def Let_def new_def s2_def)
    have t: "trace s2 = trace s @ [Fetch (Request GET cid Creator)]"
      using a [of "session new"]
      by (simp add: s2_def run_creator_effect_exec trace_exec) (simp add: new_def)
    have "guest (usr s2)"
      using that(1) by (simp add: s2_def new_def)
    then obtain xs where "trace (run_access_effect s2) = trace s2 @ xs" "requests xs = []"
      using trace_run_access_effect_guest by blast
    then show ?thesis
      using t unfolding sent_def r by (simp add: requests_append)
  qed
  show ?thesis
    using a b c by (simp add: creatorEffect_def)
qed

theorem creator_fetch_for_guests_witness:
  "turn (fetchCreatorInfo abc123) = [Fetch (Request GET ''abc123'' Creator)]
   \<and> requests (trace (mount abc123 visitor)) = [Request GET ''abc123'' Creator]
   \<and> requests (trace (mount abc123 None)) = [Request GET ''abc123'' Creator]
   \<and> sent (SetCallId (Some ''xyz789'')) (mount abc123 visitor) = [Request GET ''xyz789'' Creator]"
  using creator_fetch_for_guests [of "''abc123''" abc123 visitor "mount abc123 visitor"]
        creator_fetch_for_guests [of "''abc123''" abc123 None "mount abc123 visitor"]
        creator_fetch_for_guests [of "''xyz789''" abc123 visitor "mount abc123 visitor"]
  by (simp add: abc123_def callId_by_deps del: step.simps)

section \<open>A call the backend does not know\<close>













lemma settled_update [simp]:
  "settled (st\<lparr>joined := b\<rparr>) = settled st"
  "settled (st\<lparr>callId := c\<rparr>) = settled st"
  by (simp_all add: settled_def)






























end
